theory Spec2Isabelle
  imports Complex_Main "HOL-Library.Product_Lexorder" "HOL-Library.Multiset"
begin

section \<open>Data model\<close>

text \<open>
  The program is a script: it reads a point cloud, builds the k-nearest-neighbour graph
  (scikit-learn), replaces zero distances by a tiny positive number, extracts a minimum
  spanning tree (SciPy), puts the zeros back, and scores every point by the smallest
  positive weight stored in its row of the tree, rescaled by the smallest and the largest
  positive weight of the tree.

  Weights are IEEE doubles in the program. The model computes with real numbers, so
  rounding is not modelled; the only non-finite values the script can produce come from
  the final division, and they are modelled by \<open>npfloat\<close>.
\<close>

text \<open>
  An uncaught Python exception ends the script. The model records the exception's type
  and the line of \<^verbatim>\<open>pershout.py\<close> whose evaluation raised it, as the traceback does.
\<close>

datatype error = ValueError nat | AttributeError nat

text \<open>The result of a NumPy floating-point division: a finite number, an infinity or NaN.\<close>

datatype npfloat = Fin real | PInf | NInf | NaN

text \<open>
  A sparse matrix in CSR format is the list of its stored entries (row, column, value) in
  storage order: row after row, inside a row in the order the entries were inserted. A
  stored entry may hold the value 0 (an explicit zero); an entry that is not stored reads
  as 0 too.
\<close>

type_synonym entry = "nat \<times> nat \<times> real"
type_synonym csr = "entry list"

fun row_of :: "entry \<Rightarrow> nat" where
  "row_of (r, c, w) = r"

fun col_of :: "entry \<Rightarrow> nat" where
  "col_of (r, c, w) = c"

fun data_of :: "entry \<Rightarrow> real" where
  "data_of (r, c, w) = w"

text \<open>The values computed by lines 13 to 32, in the script's variables.\<close>

record state =
  MST :: csr
  lmin :: real
  lmax :: real
  raw :: "real list"
  persist :: "npfloat list"

section \<open>NumPy primitives\<close>

text \<open>
  \<^verbatim>\<open>a.min()\<close> and \<^verbatim>\<open>a.max()\<close>: on an empty selection NumPy raises ValueError (zero-size array
  to reduction operation); \<open>None\<close> stands for that exception, and the caller adds its line.
\<close>

fun np_min :: "real list \<Rightarrow> real option" where
  "np_min [] = None"
| "np_min (x # xs) = Some (fold min xs x)"

fun np_max :: "real list \<Rightarrow> real option" where
  "np_max [] = None"
| "np_max (x # xs) = Some (fold max xs x)"

text \<open>
  The order NumPy sorts by: \<open>-inf\<close> first, then the finite values, then \<open>inf\<close>, then NaN.
\<close>

fun sort_rank :: "npfloat \<Rightarrow> nat \<times> real" where
  "sort_rank NInf = (0, 0)"
| "sort_rank (Fin x) = (1, x)"
| "sort_rank PInf = (2, 0)"
| "sort_rank NaN = (3, 0)"

text \<open>
  Division of doubles in NumPy raises nothing: a zero denominator gives NaN for \<open>0/0\<close> and
  an infinity with the sign of the numerator otherwise (with a RuntimeWarning).
\<close>

definition np_div :: "real \<Rightarrow> real \<Rightarrow> npfloat" where
  "np_div a b =
     (if b = 0 then (if a = 0 then NaN else if 0 < a then PInf else NInf)
      else Fin (a / b))"

fun np_less_0 :: "npfloat \<Rightarrow> bool" where
  "np_less_0 (Fin x) = (x < 0)"
| "np_less_0 NInf = True"
| "np_less_0 PInf = False"
| "np_less_0 NaN = False"

text \<open>\<^verbatim>\<open>np.where(a < 0)\<close>: the indices whose value is below 0.\<close>

definition np_where_less_0 :: "npfloat list \<Rightarrow> nat list" where
  "np_where_less_0 a = filter (\<lambda>i. np_less_0 (a ! i)) [0..<length a]"

text \<open>
  \<^verbatim>\<open>M.data[M.data == a] = b\<close> (line 17) and \<^verbatim>\<open>M[M == a] = b\<close> for \<open>a \<noteq> 0\<close> (line 22): every
  stored entry whose value is \<open>a\<close> gets the value \<open>b\<close> and stays stored.
\<close>

definition assign_eq :: "real \<Rightarrow> real \<Rightarrow> csr \<Rightarrow> csr" where
  "assign_eq a b M = map (\<lambda>(r, c, w). (r, c, if w = a then b else w)) M"

text \<open>\<^verbatim>\<open>M[M > 0]\<close>: the stored values that are strictly positive.\<close>

definition positive_data :: "csr \<Rightarrow> real list" where
  "positive_data M = filter (\<lambda>w. 0 < w) (map data_of M)"

text \<open>\<^verbatim>\<open>M[i]\<close>: the stored entries of row \<open>i\<close>.\<close>

definition getrow :: "csr \<Rightarrow> nat \<Rightarrow> csr" where
  "getrow M i = filter (\<lambda>e. row_of e = i) M"

text \<open>\<^verbatim>\<open>M.getnnz(1)\<close>: for every row the number of stored entries, explicit zeros included.\<close>

definition getnnz :: "nat \<Rightarrow> csr \<Rightarrow> nat list" where
  "getnnz n M = map (\<lambda>i. length (getrow M i)) [0..<n]"

section \<open>The neighbour graph (lines 13 and 14)\<close>

text \<open>
  Modelled from the spec: \<^verbatim>\<open>kneighbors_graph\<close> is scikit-learn's, not a function of the
  repository. Section 4.1: every vertex gets edges to its k closest other points, weighted
  by the metric's distance; the call fails if \<open>k < 1\<close> or \<open>k \<ge> N\<close>. scikit-learn stores a
  row's entries in ascending order of distance; points at equal distance are taken in
  index order here.
\<close>

definition neighbors :: "('p \<Rightarrow> 'p \<Rightarrow> real) \<Rightarrow> 'p list \<Rightarrow> nat \<Rightarrow> nat \<Rightarrow> nat list" where
  "neighbors metric points k i =
     take k (sort_key (\<lambda>j. metric (points ! i) (points ! j))
               (filter (\<lambda>j. j \<noteq> i) [0..<length points]))"

text \<open>
  Modelled from the spec: the check of \<open>k\<close> (section 4.1, "fails if \<open>k < 1\<close> or \<open>k \<ge> N\<close>") and
  the graph, row after row. The script does not check \<open>k\<close> itself; the failure is the
  library's ValueError, raised inside line 13.
\<close>

definition kneighbors_graph :: "('p \<Rightarrow> 'p \<Rightarrow> real) \<Rightarrow> 'p list \<Rightarrow> int \<Rightarrow> error + csr" where
  "kneighbors_graph metric points n_neighbors =
     (if n_neighbors < 1 \<or> int (length points) \<le> n_neighbors then Inl (ValueError 13)
      else Inr (concat (map (\<lambda>i. map (\<lambda>j. (i, j, metric (points ! i) (points ! j)))
                                    (neighbors metric points (nat n_neighbors) i))
                            [0..<length points])))"

text \<open>The script's metric, \<^verbatim>\<open>"euclidean"\<close>, on coordinate vectors.\<close>

definition euclidean :: "real list \<Rightarrow> real list \<Rightarrow> real" where
  "euclidean x y = sqrt (\<Sum>(a, b) \<leftarrow> zip x y. (a - b)\<^sup>2)"

section \<open>Zero distances (lines 16 and 17)\<close>

text \<open>
  Line 16: the smallest strictly positive stored weight, times \<open>1e-8\<close>; the minimum of an
  empty selection raises. Line 17 is \<open>assign_eq 0 zero_fix\<close>, and line 22 is
  \<open>assign_eq zero_fix 0\<close> on the tree.
\<close>

definition zero_fix :: "csr \<Rightarrow> error + real" where
  "zero_fix G =
     (case np_min (positive_data G) of
        None \<Rightarrow> Inl (ValueError 16)
      | Some m \<Rightarrow> Inr (m * (1 / 10 ^ 8)))"

section \<open>The minimum spanning tree (line 20)\<close>

text \<open>
  Modelled from the spec: \<^verbatim>\<open>minimum_spanning_tree\<close> is SciPy's, not a function of the
  repository. Section 4.3: Kruskal's algorithm over the stored entries, each read as an
  undirected edge between its row and its column, in ascending order of weight with ties
  in a fixed order. SciPy walks the entries in ascending order of their values,
  keeps an entry that joins two components where the graph stores it, overwrites every
  other entry with 0, stops joining once \<open>N - 1\<close> entries are kept, and finally drops the
  stored zeros. SciPy tests connectivity with a union-find forest; the model keeps for
  every vertex the label of its component (\<open>label\<close>), which answers the same test.
\<close>

fun zero_entry :: "entry \<Rightarrow> entry" where
  "zero_entry (r, c, w) = (r, c, 0)"

fun zero_rest :: "nat list \<Rightarrow> csr \<Rightarrow> csr" where
  "zero_rest [] G = G"
| "zero_rest (j # js) G = zero_rest js (G[j := zero_entry (G ! j)])"

text \<open>
  Modelled from the spec: the order in which the loop visits the entries, as positions in
  the storage order. Section 4.3: ascending weight, ties broken by a fixed total order; here
  entries of equal weight keep their storage order.
\<close>

definition i_sort :: "real list \<Rightarrow> nat list" where
  "i_sort a = sort_key (\<lambda>j. a ! j) [0..<length a]"

text \<open>
  Modelled from the spec: the loop over the entries in sorted order. \<open>G\<close> is the matrix whose
  values the loop overwrites, \<open>n_edges\<close> counts the entries kept so far; joining the
  components of \<open>R1\<close> and \<open>R2\<close> gives every vertex labelled \<open>R2\<close> the label \<open>R1\<close>.
\<close>

fun mst_loop :: "nat \<Rightarrow> nat list \<Rightarrow> nat list \<Rightarrow> nat \<Rightarrow> csr \<Rightarrow> csr" where
  "mst_loop n_verts [] label n_edges G = G"
| "mst_loop n_verts (j # js) label n_edges G =
     (if n_edges < n_verts - 1 then
        (let R1 = label ! row_of (G ! j); R2 = label ! col_of (G ! j) in
         if R1 \<noteq> R2
         then mst_loop n_verts js (map (\<lambda>c. if c = R2 then R1 else c) label) (n_edges + 1) G
         else mst_loop n_verts js label n_edges (G[j := zero_entry (G ! j)]))
      else zero_rest (j # js) G)"

definition eliminate_zeros :: "csr \<Rightarrow> csr" where
  "eliminate_zeros M = filter (\<lambda>e. data_of e \<noteq> 0) M"

text \<open>
  Modelled from the spec: the call of line 20. Every vertex starts as a component of its
  own.
\<close>

definition minimum_spanning_tree :: "nat \<Rightarrow> csr \<Rightarrow> csr" where
  "minimum_spanning_tree n_verts G =
     eliminate_zeros (mst_loop n_verts (i_sort (map data_of G)) [0..<n_verts] 0 G)"

section \<open>Scores (lines 22 to 36)\<close>

text \<open>Lines 24 and 25, on the tree after line 22.\<close>

definition lmin_of :: "csr \<Rightarrow> error + real" where
  "lmin_of M = (case np_min (positive_data M) of None \<Rightarrow> Inl (ValueError 24) | Some m \<Rightarrow> Inr m)"

definition lmax_of :: "csr \<Rightarrow> error + real" where
  "lmax_of M = (case np_max (positive_data M) of None \<Rightarrow> Inl (ValueError 25) | Some m \<Rightarrow> Inr m)"

text \<open>
  Lines 26 to 30. \<open>p\<close> starts as \<^verbatim>\<open>np.zeros(len(data))\<close>; the loop visits the rows in order and
  overwrites the entry of a row that stores something (\<^verbatim>\<open>degree[i] > 0\<close>) with the minimum
  of the row's positive values. That minimum raises ValueError when the row stores no
  positive value.
\<close>

fun persist_loop :: "csr \<Rightarrow> nat list \<Rightarrow> nat list \<Rightarrow> real list \<Rightarrow> error + real list" where
  "persist_loop M degree [] p = Inr p"
| "persist_loop M degree (i # rest) p =
     (if 0 < degree ! i then
        (case np_min (positive_data (getrow M i)) of
           None \<Rightarrow> Inl (ValueError 30)
         | Some m \<Rightarrow> persist_loop M degree rest (p[i := m]))
      else persist_loop M degree rest p)"

definition persistence :: "nat \<Rightarrow> csr \<Rightarrow> error + real list" where
  "persistence n M = persist_loop M (getnnz n M) [0..<n] (replicate n 0)"

text \<open>Line 32.\<close>

definition normalize :: "real list \<Rightarrow> real \<Rightarrow> real \<Rightarrow> npfloat list" where
  "normalize p lo hi = map (\<lambda>x. np_div (x - lo) (hi - lo)) p"

text \<open>
  Line 33 prints \<^verbatim>\<open>np.where(persist < 0).shape\<close>. \<^verbatim>\<open>np.where\<close> with one argument returns a tuple
  of index arrays, and a tuple has no attribute \<^verbatim>\<open>shape\<close>: the line raises AttributeError
  whatever the scores are.
\<close>

definition diagnostic :: "npfloat list \<Rightarrow> error + nat" where
  "diagnostic p = Inl (AttributeError 33)"

text \<open>
  Line 34, \<^verbatim>\<open>idx = np.argsort(persist)\<close>: the vertex indices in ascending order of their
  scores. NumPy's default sort fixes no order among equal scores, so the model does not
  compute one result; \<open>is_argsort p js\<close> says that \<open>js\<close> is a possible value of \<open>idx\<close>.
\<close>

definition is_argsort :: "npfloat list \<Rightarrow> nat list \<Rightarrow> bool" where
  "is_argsort p js \<longleftrightarrow>
     set js = {0..<length p} \<and> distinct js \<and> sorted (map (\<lambda>i. sort_rank (p ! i)) js)"

text \<open>
  Line 36 prints \<^verbatim>\<open>persist[idx]\<close>, the scores in ascending order; equal scores are equal
  values, so the printed list is the same for every possible \<open>idx\<close>.
\<close>

definition sorted_scores :: "npfloat list \<Rightarrow> npfloat list" where
  "sorted_scores p = sort_key sort_rank p"

section \<open>The script\<close>

definition pipeline :: "('p \<Rightarrow> 'p \<Rightarrow> real) \<Rightarrow> 'p list \<Rightarrow> int \<Rightarrow> error + state" where
  "pipeline metric points n_neighbors =
     (case kneighbors_graph metric points n_neighbors of
        Inl e \<Rightarrow> Inl e
      | Inr G \<Rightarrow>
     (case zero_fix G of
        Inl e \<Rightarrow> Inl e
      | Inr zf \<Rightarrow>
     (let M = assign_eq zf 0 (minimum_spanning_tree (length points) (assign_eq 0 zf G)) in
      case lmin_of M of
        Inl e \<Rightarrow> Inl e
      | Inr lo \<Rightarrow>
     (case lmax_of M of
        Inl e \<Rightarrow> Inl e
      | Inr hi \<Rightarrow>
     (case persistence (length points) M of
        Inl e \<Rightarrow> Inl e
      | Inr p \<Rightarrow>
          Inr \<lparr>MST = M, lmin = lo, lmax = hi, raw = p, persist = normalize p lo hi\<rparr>)))))"

text \<open>Lines 13 to 36: what the script prints last, the scores in ascending order.\<close>

definition script :: "('p \<Rightarrow> 'p \<Rightarrow> real) \<Rightarrow> 'p list \<Rightarrow> int \<Rightarrow> error + npfloat list" where
  "script metric points n_neighbors =
     (case pipeline metric points n_neighbors of
        Inl e \<Rightarrow> Inl e
      | Inr s \<Rightarrow>
     (case diagnostic (persist s) of
        Inl e \<Rightarrow> Inl e
      | Inr n \<Rightarrow> Inr (sorted_scores (persist s))))"

section \<open>The spec's reading of an incident edge\<close>

text \<open>
  Section 4.4 of the spec speaks of the edges of the forest incident to a vertex. The forest
  stores an edge once, as an entry of the row of one of its ends; \<open>incident M i\<close> are the
  entries that have \<open>i\<close> as their row or as their column.
\<close>

definition incident :: "csr \<Rightarrow> nat \<Rightarrow> csr" where
  "incident M i = filter (\<lambda>e. row_of e = i \<or> col_of e = i) M"

section \<open>Helper facts\<close>

subsection \<open>Minimum and maximum\<close>

lemma np_min_None: "np_min xs = None \<longleftrightarrow> xs = []"
  by (cases xs) simp_all

lemma np_max_None: "np_max xs = None \<longleftrightarrow> xs = []"
  by (cases xs) simp_all

lemma np_min_Min: "xs \<noteq> [] \<Longrightarrow> np_min xs = Some (Min (set xs))"
proof (cases xs)
  case (Cons a list)
  then show ?thesis using Min.set_eq_fold[of a list] by simp
qed simp

lemma np_max_Max: "xs \<noteq> [] \<Longrightarrow> np_max xs = Some (Max (set xs))"
proof (cases xs)
  case (Cons a list)
  then show ?thesis using Max.set_eq_fold[of a list] by simp
qed simp

lemma np_min_SomeD:
  assumes "np_min xs = Some m"
  shows "m \<in> set xs" and "\<And>x. x \<in> set xs \<Longrightarrow> m \<le> x"
proof -
  from assms have ne: "xs \<noteq> []" by (cases xs) simp_all
  with assms have m: "m = Min (set xs)" by (simp add: np_min_Min)
  from ne show "m \<in> set xs" unfolding m by (intro Min_in) simp_all
  fix x assume "x \<in> set xs"
  then show "m \<le> x" unfolding m by (intro Min_le) simp_all
qed

lemma np_max_SomeD:
  assumes "np_max xs = Some m"
  shows "m \<in> set xs" and "\<And>x. x \<in> set xs \<Longrightarrow> x \<le> m"
proof -
  from assms have ne: "xs \<noteq> []" by (cases xs) simp_all
  with assms have m: "m = Max (set xs)" by (simp add: np_max_Max)
  from ne show "m \<in> set xs" unfolding m by (intro Max_in) simp_all
  fix x assume "x \<in> set xs"
  then show "x \<le> m" unfolding m by (intro Max_ge) simp_all
qed

subsection \<open>The order of the entries\<close>

lemma i_sort_set: "set (i_sort a) = {0..<length a}"
  by (simp add: i_sort_def)

lemma i_sort_distinct: "distinct (i_sort a)"
  by (simp add: i_sort_def)

lemma i_sort_sorted: "sorted (map (\<lambda>j. a ! j) (i_sort a))"
  unfolding i_sort_def by (rule sorted_sort_key)

subsection \<open>The neighbour graph\<close>

lemma euclidean_1d: "euclidean [a] [b] = \<bar>a - b\<bar>"
  by (simp add: euclidean_def)

lemma kneighbors_graph_Inr:
  "kneighbors_graph metric points k = Inr G \<longleftrightarrow>
     1 \<le> k \<and> k < int (length points) \<and>
     G = concat (map (\<lambda>i. map (\<lambda>j. (i, j, metric (points ! i) (points ! j)))
                                    (neighbors metric points (nat k) i))
                            [0..<length points])"
  by (auto simp: kneighbors_graph_def)

lemma neighbors_subset:
  assumes "j \<in> set (neighbors metric points k i)"
  shows "j < length points" and "j \<noteq> i"
proof -
  have "set (neighbors metric points k i)
      \<subseteq> set (sort_key (\<lambda>j. metric (points ! i) (points ! j)) (filter (\<lambda>j. j \<noteq> i) [0..<length points]))"
    unfolding neighbors_def by (rule set_take_subset)
  with assms show "j < length points" and "j \<noteq> i" by auto
qed

lemma neighbors_nonempty:
  assumes "0 < k" and "i < length points" and "2 \<le> length points"
  shows "neighbors metric points k i \<noteq> []"
proof -
  obtain j where "j < length points" "j \<noteq> i"
    using assms(2,3) by (cases "i = 0") (auto intro: that[of 0] that[of 1])
  then have "filter (\<lambda>j. j \<noteq> i) [0..<length points] \<noteq> []"
    by (auto simp: filter_empty_conv)
  then have "sort_key (\<lambda>j. metric (points ! i) (points ! j)) (filter (\<lambda>j. j \<noteq> i) [0..<length points]) \<noteq> []"
    by (metis length_sort length_0_conv)
  with assms(1) show ?thesis by (simp add: neighbors_def)
qed

lemma kneighbors_graph_entry:
  assumes "kneighbors_graph metric points k = Inr G" and "i < length points"
    and "j \<in> set (neighbors metric points (nat k) i)"
  shows "(i, j, metric (points ! i) (points ! j)) \<in> set G"
  using assms by (auto simp: kneighbors_graph_Inr)

lemma kneighbors_graph_bounds:
  assumes "kneighbors_graph metric points k = Inr G" and "e \<in> set G"
  shows "row_of e < length points" and "col_of e < length points" and "row_of e \<noteq> col_of e"
    and "data_of e = metric (points ! row_of e) (points ! col_of e)"
  using assms by (auto simp: kneighbors_graph_Inr dest: neighbors_subset)

subsection \<open>Zeros replaced and put back\<close>

lemma positive_data_pos: "w \<in> set (positive_data M) \<Longrightarrow> 0 < w"
  by (simp add: positive_data_def)

lemma positive_data_getrow: "w \<in> set (positive_data (getrow M i)) \<Longrightarrow> w \<in> set (positive_data M)"
  by (auto simp: positive_data_def getrow_def)

lemma positive_data_Nil: "positive_data G = [] \<longleftrightarrow> (\<forall>e\<in>set G. data_of e \<le> 0)"
  by (auto simp: positive_data_def filter_empty_conv not_less)

lemma zero_fix_Inl: "zero_fix G = Inl e \<longleftrightarrow> e = ValueError 16 \<and> positive_data G = []"
  by (auto simp: zero_fix_def np_min_None split: option.splits)

lemma zero_fix_Inr: "zero_fix G = Inr zf \<longleftrightarrow> (\<exists>m. np_min (positive_data G) = Some m \<and> zf = m * (1 / 10 ^ 8))"
  by (auto simp: zero_fix_def split: option.splits)

lemma zero_fix_returns: "(\<exists>zf. zero_fix G = Inr zf) \<longleftrightarrow> (\<exists>e\<in>set G. 0 < data_of e)"
proof -
  have "(\<exists>zf. zero_fix G = Inr zf) \<longleftrightarrow> positive_data G \<noteq> []"
  proof (cases "np_min (positive_data G)")
    case None
    then show ?thesis by (simp add: zero_fix_def np_min_None[symmetric])
  next
    case (Some m)
    then have "zero_fix G = Inr (m * (1 / 10 ^ 8))" by (simp add: zero_fix_def)
    moreover from Some have "positive_data G \<noteq> []" by (simp add: np_min_None[symmetric])
    ultimately show ?thesis by blast
  qed
  then show ?thesis by (auto simp: positive_data_Nil not_le)
qed

lemma zero_fix_small:
  assumes "zero_fix G = Inr zf"
  shows "0 < zf" and "\<And>e. e \<in> set G \<Longrightarrow> 0 < data_of e \<Longrightarrow> zf < data_of e"
proof -
  from assms obtain m where m: "np_min (positive_data G) = Some m" and zf: "zf = m * (1 / 10 ^ 8)"
    by (auto simp: zero_fix_Inr)
  from np_min_SomeD(1)[OF m] have pos: "0 < m" by (rule positive_data_pos)
  then show "0 < zf" by (simp add: zf)
  from pos have less: "zf < m" by (simp add: zf)
  fix e assume "e \<in> set G" "0 < data_of e"
  then have "data_of e \<in> set (positive_data G)" by (simp add: positive_data_def)
  from np_min_SomeD(2)[OF m this] less show "zf < data_of e" by simp
qed

lemma zero_fix_fresh:
  assumes "zero_fix G = Inr zf" and "e \<in> set G"
  shows "data_of e \<noteq> zf"
proof (cases "0 < data_of e")
  case True
  from zero_fix_small(2)[OF assms True] show ?thesis by simp
next
  case False
  with zero_fix_small(1)[OF assms(1)] show ?thesis by simp
qed

lemma assign_eq_alt:
  "assign_eq a b M = map (\<lambda>e. (row_of e, col_of e, if data_of e = a then b else data_of e)) M"
  by (auto simp: assign_eq_def)

lemma assign_eq_mem:
  "e \<in> set (assign_eq a b M) \<longleftrightarrow>
     (\<exists>e0\<in>set M. e = (row_of e0, col_of e0, if data_of e0 = a then b else data_of e0))"
  unfolding assign_eq_alt by auto

lemma distinct_point_gives_scale:
  assumes k: "1 \<le> k" "k < int (length points)" and i: "i < length points"
    and far: "\<forall>j < length points. j \<noteq> i \<longrightarrow> 0 < metric (points ! i) (points ! j)"
  shows "\<exists>G zf. kneighbors_graph metric points k = Inr G \<and> zero_fix G = Inr zf"
proof -
  from k obtain G where G: "kneighbors_graph metric points k = Inr G"
    by (auto simp: kneighbors_graph_Inr)
  from k have "0 < nat k" "2 \<le> length points" by simp_all
  then have "neighbors metric points (nat k) i \<noteq> []"
    using i by (intro neighbors_nonempty)
  then obtain j where j: "j \<in> set (neighbors metric points (nat k) i)"
    by (cases "neighbors metric points (nat k) i") auto
  then have "j < length points" "j \<noteq> i" by (auto dest: neighbors_subset)
  with far have "0 < metric (points ! i) (points ! j)" by simp
  moreover have "(i, j, metric (points ! i) (points ! j)) \<in> set G"
    by (rule kneighbors_graph_entry[OF G i j])
  ultimately have "\<exists>e\<in>set G. 0 < data_of e" by force
  then obtain zf where "zero_fix G = Inr zf" unfolding zero_fix_returns[symmetric] ..
  with G show ?thesis by blast
qed

subsection \<open>Kruskal's loop\<close>

text \<open>
  The loop only ever overwrites values with 0, so what the tree stores is stored by the
  graph. An entry is kept when it is the first, in the order of the weights, to touch one of
  its ends: until then that end is a component of its own.
\<close>

lemma zero_entry_simps [simp]:
  "row_of (zero_entry e) = row_of e" "col_of (zero_entry e) = col_of e" "data_of (zero_entry e) = 0"
  by (cases e; simp)+

lemma zeroed_row: "row_of (G[p := zero_entry (G ! p)] ! q) = row_of (G ! q)"
proof (cases "p < length G")
  case True
  then show ?thesis by (cases "p = q") simp_all
next
  case False
  then have "G[p := zero_entry (G ! p)] = G" by (intro list_update_beyond) simp
  then show ?thesis by (rule arg_cong)
qed

lemma zeroed_col: "col_of (G[p := zero_entry (G ! p)] ! q) = col_of (G ! q)"
proof (cases "p < length G")
  case True
  then show ?thesis by (cases "p = q") simp_all
next
  case False
  then have "G[p := zero_entry (G ! p)] = G" by (intro list_update_beyond) simp
  then show ?thesis by (rule arg_cong)
qed

lemma zero_rest_length [simp]: "length (zero_rest js G) = length G"
  by (induction js arbitrary: G) simp_all

lemma mst_loop_length [simp]: "length (mst_loop n js label ne G) = length G"
  by (induction js arbitrary: label ne G) (simp_all add: Let_def)

lemma zero_rest_untouched: "j \<notin> set js \<Longrightarrow> zero_rest js G ! j = G ! j"
  by (induction js arbitrary: G) auto

lemma mst_loop_untouched: "j \<notin> set js \<Longrightarrow> mst_loop n js label ne G ! j = G ! j"
proof (induction js arbitrary: label ne G)
  case Nil
  then show ?case by simp
next
  case (Cons p js)
  then have "p \<noteq> j" "j \<notin> set js" by auto
  with Cons.IH show ?case
    by (simp add: Let_def zero_rest_untouched)
qed

lemma zero_rest_nth:
  "q < length G \<Longrightarrow> zero_rest js G ! q = G ! q \<or> zero_rest js G ! q = zero_entry (G ! q)"
proof (induction js arbitrary: G)
  case Nil
  then show ?case by simp
next
  case (Cons p js)
  let ?G = "G[p := zero_entry (G ! p)]"
  from Cons.prems have "q < length ?G" by simp
  from Cons.IH[OF this] have "zero_rest js ?G ! q = ?G ! q \<or> zero_rest js ?G ! q = zero_entry (?G ! q)" .
  moreover have "?G ! q = G ! q \<or> ?G ! q = zero_entry (G ! q)"
    using Cons.prems by (cases "p = q") simp_all
  moreover have "zero_entry (zero_entry (G ! q)) = zero_entry (G ! q)"
    by (cases "G ! q") simp
  ultimately show ?case by auto
qed

lemma mst_loop_nth:
  "q < length G \<Longrightarrow>
     mst_loop n js label ne G ! q = G ! q \<or> mst_loop n js label ne G ! q = zero_entry (G ! q)"
proof (induction js arbitrary: label ne G)
  case Nil
  then show ?case by simp
next
  case (Cons p js)
  let ?G = "G[p := zero_entry (G ! p)]"
  have upd: "?G ! q = G ! q \<or> ?G ! q = zero_entry (G ! q)"
    using Cons.prems by (cases "p = q") simp_all
  have idem: "zero_entry (zero_entry (G ! q)) = zero_entry (G ! q)"
    by (cases "G ! q") simp
  from Cons.prems have len: "q < length ?G" by simp
  show ?case
  proof (cases "ne < n - 1")
    case False
    then have "mst_loop n (p # js) label ne G = zero_rest js ?G" by simp
    with zero_rest_nth[OF len, of js] upd idem show ?thesis by auto
  next
    case True
    show ?thesis
    proof (cases "label ! row_of (G ! p) = label ! col_of (G ! p)")
      case True
      with \<open>ne < n - 1\<close> have "mst_loop n (p # js) label ne G = mst_loop n js label ne ?G"
        by simp
      with Cons.IH[OF len, of label ne] upd idem show ?thesis by auto
    next
      case False
      with \<open>ne < n - 1\<close> have "mst_loop n (p # js) label ne G =
          mst_loop n js (map (\<lambda>c. if c = label ! col_of (G ! p) then label ! row_of (G ! p) else c) label) (ne + 1) G"
        by (simp add: Let_def)
      with Cons.IH[OF Cons.prems] show ?thesis by simp
    qed
  qed
qed

lemma minimum_spanning_tree_subset: "set (minimum_spanning_tree n G) \<subseteq> set G"
proof
  fix e assume "e \<in> set (minimum_spanning_tree n G)"
  then have mem: "e \<in> set (mst_loop n (i_sort (map data_of G)) [0..<n] 0 G)"
    and nz: "data_of e \<noteq> 0"
    by (simp_all add: minimum_spanning_tree_def eliminate_zeros_def)
  from mem obtain q where q: "q < length G"
    and e: "e = mst_loop n (i_sort (map data_of G)) [0..<n] 0 G ! q"
    by (auto simp: in_set_conv_nth)
  from mst_loop_nth[OF q, of n "i_sort (map data_of G)" "[0..<n]" 0] e nz
  have "e = G ! q" by auto
  with q show "e \<in> set G" by simp
qed

lemma relabel_card:
  assumes "R1 \<in> set label" and "R2 \<in> set label" and "R1 \<noteq> R2"
  shows "Suc (card (set (map (\<lambda>c. if c = R2 then R1 else c) label))) \<le> card (set label)"
proof -
  have sub: "set (map (\<lambda>c. if c = R2 then R1 else c) label) \<subseteq> set label - {R2}"
    using assms by auto
  have a: "card (set (map (\<lambda>c. if c = R2 then R1 else c) label)) \<le> card (set label - {R2})"
    by (rule card_mono[OF _ sub]) simp
  have b: "Suc (card (set label - {R2})) = card (set label)"
    by (rule card_Suc_Diff1) (simp_all add: assms(2))
  from a b show ?thesis by linarith
qed

lemma two_labels:
  assumes "length label = n" and "label ! u = u" and "label ! v \<noteq> u" and "u < n" and "v < n"
  shows "2 \<le> card (set label)"
proof -
  have "{u, label ! v} \<subseteq> set label"
    using assms by (metis insert_subset empty_subsetI nth_mem)
  then have "card {u, label ! v} \<le> card (set label)" by (intro card_mono) simp_all
  with assms(3) show ?thesis by simp
qed

lemma mst_loop_keeps_first:
  assumes "length label = n" and "label ! u = u" and "\<forall>x<n. x \<noteq> u \<longrightarrow> label ! x \<noteq> u"
    and "ne + card (set label) \<le> n" and "u < n" and "v < n" and "u \<noteq> v"
    and "\<forall>p\<in>set pre. p < length G \<and> row_of (G ! p) < n \<and> col_of (G ! p) < n
            \<and> row_of (G ! p) \<noteq> u \<and> col_of (G ! p) \<noteq> u"
    and "j \<notin> set pre" and "j \<notin> set post"
    and "row_of (G ! j) = u \<and> col_of (G ! j) = v \<or> row_of (G ! j) = v \<and> col_of (G ! j) = u"
  shows "mst_loop n (pre @ j # post) label ne G ! j = G ! j"
  using assms
proof (induction pre arbitrary: label ne G)
  case Nil
  from Nil.prems have lv: "label ! v \<noteq> u" by simp
  from two_labels[OF Nil.prems(1,2) lv Nil.prems(5,6)] Nil.prems(4)
  have go: "ne < n - 1" by simp
  from Nil.prems(11) Nil.prems(2) lv
  have "label ! row_of (G ! j) \<noteq> label ! col_of (G ! j)" by auto
  with go show ?case
    using mst_loop_untouched[OF Nil.prems(10)] by (simp add: Let_def)
next
  case (Cons p pre)
  from Cons.prems have lv: "label ! v \<noteq> u" by simp
  from two_labels[OF Cons.prems(1,2) lv Cons.prems(5,6)] Cons.prems(4)
  have go: "ne < n - 1" by simp
  from Cons.prems(8) have p: "p < length G" "row_of (G ! p) < n" "col_of (G ! p) < n"
    "row_of (G ! p) \<noteq> u" "col_of (G ! p) \<noteq> u" by simp_all
  from Cons.prems(9) have pj: "p \<noteq> j" and jpre: "j \<notin> set pre" by auto
  let ?R1 = "label ! row_of (G ! p)" and ?R2 = "label ! col_of (G ! p)"
  from p Cons.prems(3) have R: "?R1 \<noteq> u" "?R2 \<noteq> u" by simp_all
  show ?case
  proof (cases "?R1 = ?R2")
    case True
    let ?G = "G[p := zero_entry (G ! p)]"
    have step: "mst_loop n ((p # pre) @ j # post) label ne G = mst_loop n (pre @ j # post) label ne ?G"
      using go True by simp
    have pre': "\<forall>q\<in>set pre. q < length ?G \<and> row_of (?G ! q) < n \<and> col_of (?G ! q) < n
            \<and> row_of (?G ! q) \<noteq> u \<and> col_of (?G ! q) \<noteq> u"
      using Cons.prems(8) by (simp add: zeroed_row zeroed_col)
    have j': "row_of (?G ! j) = u \<and> col_of (?G ! j) = v \<or> row_of (?G ! j) = v \<and> col_of (?G ! j) = u"
      using Cons.prems(11) by (simp add: zeroed_row zeroed_col)
    have "mst_loop n (pre @ j # post) label ne ?G ! j = ?G ! j"
      by (rule Cons.IH[OF Cons.prems(1,2,3,4,5,6,7) pre' jpre Cons.prems(10) j'])
    with step pj show ?thesis by simp
  next
    case False
    let ?label = "map (\<lambda>c. if c = ?R2 then ?R1 else c) label"
    have step: "mst_loop n ((p # pre) @ j # post) label ne G = mst_loop n (pre @ j # post) ?label (ne + 1) G"
      using go False by (simp add: Let_def)
    have l1: "length ?label = n" using Cons.prems(1) by simp
    have l2: "?label ! u = u" using Cons.prems(1,2,5) R by simp
    have l3: "\<forall>x<n. x \<noteq> u \<longrightarrow> ?label ! x \<noteq> u"
      using Cons.prems(1,3) R by simp
    have "?R1 \<in> set label" "?R2 \<in> set label" using p Cons.prems(1) by simp_all
    from relabel_card[OF this False] Cons.prems(4)
    have l4: "(ne + 1) + card (set ?label) \<le> n" by simp
    have pre': "\<forall>q\<in>set pre. q < length G \<and> row_of (G ! q) < n \<and> col_of (G ! q) < n
            \<and> row_of (G ! q) \<noteq> u \<and> col_of (G ! q) \<noteq> u"
      using Cons.prems(8) by simp
    have "mst_loop n (pre @ j # post) ?label (ne + 1) G ! j = G ! j"
      by (rule Cons.IH[OF l1 l2 l3 l4 Cons.prems(5,6,7) pre' jpre Cons.prems(10,11)])
    with step show ?thesis by simp
  qed
qed

lemma minimum_spanning_tree_keeps_pair:
  assumes bounds: "\<forall>e\<in>set G. row_of e < n \<and> col_of e < n"
    and uv: "(u, v, z) \<in> set G" and ne: "u \<noteq> v" and z: "z \<noteq> 0"
    and pair: "\<forall>e\<in>set G. (row_of e = u \<or> col_of e = u) \<and> (row_of e = v \<or> col_of e = v)
                 \<longrightarrow> data_of e = z"
    and other: "\<forall>e\<in>set G. (row_of e = u \<or> col_of e = u) \<and> \<not> (row_of e = v \<or> col_of e = v)
                 \<longrightarrow> z < data_of e"
  shows "(u, v, z) \<in> set (minimum_spanning_tree n G) \<or> (v, u, z) \<in> set (minimum_spanning_tree n G)"
proof -
  let ?js = "i_sort (map data_of G)"
  let ?P = "\<lambda>p. row_of (G ! p) \<noteq> u \<and> col_of (G ! p) \<noteq> u"
  from uv obtain q0 where q0: "q0 < length G" "G ! q0 = (u, v, z)"
    by (auto simp: in_set_conv_nth)
  from bounds uv have un: "u < n" and vn: "v < n" by auto
  have set_js: "set ?js = {0..<length G}" by (simp add: i_sort_set)
  have dist: "distinct ?js" by (rule i_sort_distinct)
  have sorted_js: "sorted (map (\<lambda>j. map data_of G ! j) ?js)" by (rule i_sort_sorted)
  from q0 have q0_js: "q0 \<in> set ?js" and q0_P: "\<not> ?P q0" by (simp_all add: set_js)
  then have "dropWhile ?P ?js \<noteq> []" by (auto simp: dropWhile_eq_Nil_conv)
  then obtain j post where rest: "dropWhile ?P ?js = j # post"
    by (cases "dropWhile ?P ?js") auto
  define pre where "pre = takeWhile ?P ?js"
  have split: "?js = pre @ j # post"
    unfolding pre_def rest[symmetric] by simp
  have j_P: "\<not> ?P j" using hd_dropWhile[of ?P ?js] rest by simp
  have pre_P: "\<forall>p\<in>set pre. ?P p" unfolding pre_def by (auto dest: set_takeWhileD)
  from dist split have j_pre: "j \<notin> set pre" and j_post: "j \<notin> set post" by auto
  have in_range: "\<forall>p\<in>set ?js. p < length G" by (simp add: set_js)
  with split have j_len: "j < length G" and pre_len: "\<forall>p\<in>set pre. p < length G" by auto
  then have j_mem: "G ! j \<in> set G" by simp
  have touches_v: "row_of (G ! j) = v \<or> col_of (G ! j) = v"
  proof (rule ccontr)
    assume "\<not> ?thesis"
    with other j_mem j_P have far: "z < data_of (G ! j)" by blast
    from q0_P pre_P have "q0 \<notin> set pre" by blast
    moreover from far q0 have "q0 \<noteq> j" by auto
    ultimately have "q0 \<in> set post" using q0_js split by auto
    moreover from sorted_js split
    have "\<forall>y\<in>set post. map data_of G ! j \<le> map data_of G ! y"
      by (simp add: sorted_append)
    ultimately have "map data_of G ! j \<le> map data_of G ! q0" by blast
    with j_len q0 far show False by simp
  qed
  with j_P ne have ends: "row_of (G ! j) = u \<and> col_of (G ! j) = v \<or> row_of (G ! j) = v \<and> col_of (G ! j) = u"
    by auto
  from pair j_mem j_P touches_v have weight: "data_of (G ! j) = z" by blast
  have pre_ok: "\<forall>p\<in>set pre. p < length G \<and> row_of (G ! p) < n \<and> col_of (G ! p) < n
            \<and> row_of (G ! p) \<noteq> u \<and> col_of (G ! p) \<noteq> u"
    using pre_len pre_P bounds by simp
  have init: "length [0..<n] = n" "[0..<n] ! u = u" "\<forall>x<n. x \<noteq> u \<longrightarrow> [0..<n] ! x \<noteq> u"
    "0 + card (set [0..<n]) \<le> n"
    using un by simp_all
  have kept: "mst_loop n ?js [0..<n] 0 G ! j = G ! j"
    unfolding split
    by (rule mst_loop_keeps_first[OF init un vn ne pre_ok j_pre j_post ends])
  from j_len have "mst_loop n ?js [0..<n] 0 G ! j \<in> set (mst_loop n ?js [0..<n] 0 G)"
    by (intro nth_mem) simp
  with kept weight z have "G ! j \<in> set (minimum_spanning_tree n G)"
    by (simp add: minimum_spanning_tree_def eliminate_zeros_def)
  moreover from ends weight have "G ! j = (u, v, z) \<or> G ! j = (v, u, z)"
    by (cases "G ! j") auto
  ultimately show ?thesis by auto
qed

lemma minimum_spanning_tree_touches:
  assumes bounds: "\<forall>e\<in>set G. row_of e < n \<and> col_of e < n"
    and loops: "\<forall>e\<in>set G. row_of e \<noteq> col_of e"
    and nonzero: "\<forall>e\<in>set G. data_of e \<noteq> 0"
    and touched: "\<exists>e\<in>set G. row_of e = u \<or> col_of e = u"
  shows "\<exists>e\<in>set (minimum_spanning_tree n G). row_of e = u \<or> col_of e = u"
proof -
  let ?js = "i_sort (map data_of G)"
  let ?P = "\<lambda>p. row_of (G ! p) \<noteq> u \<and> col_of (G ! p) \<noteq> u"
  from touched obtain q0 where q0: "q0 < length G" "\<not> ?P q0"
    by (auto simp: in_set_conv_nth)
  have set_js: "set ?js = {0..<length G}" by (simp add: i_sort_set)
  have dist: "distinct ?js" by (rule i_sort_distinct)
  from q0 have "q0 \<in> set ?js" by (simp add: set_js)
  with q0 have "dropWhile ?P ?js \<noteq> []" by (auto simp: dropWhile_eq_Nil_conv)
  then obtain j post where rest: "dropWhile ?P ?js = j # post"
    by (cases "dropWhile ?P ?js") auto
  define pre where "pre = takeWhile ?P ?js"
  have split: "?js = pre @ j # post"
    unfolding pre_def rest[symmetric] by simp
  have j_P: "\<not> ?P j" using hd_dropWhile[of ?P ?js] rest by simp
  have pre_P: "\<forall>p\<in>set pre. ?P p" unfolding pre_def by (auto dest: set_takeWhileD)
  from dist split have j_pre: "j \<notin> set pre" and j_post: "j \<notin> set post" by auto
  have "\<forall>p\<in>set ?js. p < length G" by (simp add: set_js)
  with split have j_len: "j < length G" and pre_len: "\<forall>p\<in>set pre. p < length G" by auto
  then have j_mem: "G ! j \<in> set G" by simp
  define v where "v = (if row_of (G ! j) = u then col_of (G ! j) else row_of (G ! j))"
  from j_P loops j_mem have ends: "row_of (G ! j) = u \<and> col_of (G ! j) = v \<or> row_of (G ! j) = v \<and> col_of (G ! j) = u"
    and ne: "u \<noteq> v" by (auto simp: v_def)
  from bounds j_mem ends have un: "u < n" and vn: "v < n" by auto
  have pre_ok: "\<forall>p\<in>set pre. p < length G \<and> row_of (G ! p) < n \<and> col_of (G ! p) < n
            \<and> row_of (G ! p) \<noteq> u \<and> col_of (G ! p) \<noteq> u"
    using pre_len pre_P bounds by simp
  have init: "length [0..<n] = n" "[0..<n] ! u = u" "\<forall>x<n. x \<noteq> u \<longrightarrow> [0..<n] ! x \<noteq> u"
    "0 + card (set [0..<n]) \<le> n"
    using un by simp_all
  have kept: "mst_loop n ?js [0..<n] 0 G ! j = G ! j"
    unfolding split
    by (rule mst_loop_keeps_first[OF init un vn ne pre_ok j_pre j_post ends])
  from j_len have "mst_loop n ?js [0..<n] 0 G ! j \<in> set (mst_loop n ?js [0..<n] 0 G)"
    by (intro nth_mem) simp
  with kept nonzero j_mem have "G ! j \<in> set (minimum_spanning_tree n G)"
    by (simp add: minimum_spanning_tree_def eliminate_zeros_def)
  with j_P show ?thesis by blast
qed

lemma forest_subset_graph:
  assumes "zero_fix G = Inr zf"
  shows "set (assign_eq zf 0 (minimum_spanning_tree n (assign_eq 0 zf G))) \<subseteq> set G"
proof
  fix e assume "e \<in> set (assign_eq zf 0 (minimum_spanning_tree n (assign_eq 0 zf G)))"
  then obtain e1 where e1: "e1 \<in> set (minimum_spanning_tree n (assign_eq 0 zf G))"
    and e: "e = (row_of e1, col_of e1, if data_of e1 = zf then 0 else data_of e1)"
    unfolding assign_eq_mem by blast
  from e1 have "e1 \<in> set (assign_eq 0 zf G)"
    using minimum_spanning_tree_subset by blast
  then obtain e0 where e0: "e0 \<in> set G"
    and e1': "e1 = (row_of e0, col_of e0, if data_of e0 = 0 then zf else data_of e0)"
    unfolding assign_eq_mem by blast
  have "e = (row_of e0, col_of e0, data_of e0)"
  proof (cases "data_of e0 = 0")
    case True
    with e e1' show ?thesis by simp
  next
    case False
    with e e1' zero_fix_fresh[OF assms e0] show ?thesis by simp
  qed
  then have "e = e0" by (cases e0) simp
  with e0 show "e \<in> set G" by simp
qed

lemma sanitized_keeps_pair:
  assumes graph: "kneighbors_graph metric points k = Inr G" and zf: "zero_fix G = Inr zf"
    and uv: "(u, v, 0) \<in> set G" and vu: "(v, u, 0) \<in> set G"
    and other: "\<forall>e\<in>set G. (row_of e = u \<or> col_of e = u) \<and> row_of e \<noteq> v \<and> col_of e \<noteq> v
                  \<longrightarrow> 0 < data_of e"
  shows "(u, v, zf) \<in> set (minimum_spanning_tree (length points) (assign_eq 0 zf G))
       \<or> (v, u, zf) \<in> set (minimum_spanning_tree (length points) (assign_eq 0 zf G))"
proof (rule minimum_spanning_tree_keeps_pair)
  let ?G = "assign_eq 0 zf G"
  note B = kneighbors_graph_bounds[OF graph]
  show "\<forall>e\<in>set ?G. row_of e < length points \<and> col_of e < length points"
  proof
    fix e assume "e \<in> set ?G"
    then obtain e0 where "e0 \<in> set G" "row_of e = row_of e0" "col_of e = col_of e0"
      unfolding assign_eq_mem by auto
    with B(1,2)[of e0] show "row_of e < length points \<and> col_of e < length points" by simp
  qed
  show "(u, v, zf) \<in> set ?G"
    unfolding assign_eq_mem using uv by force
  have distinct_ends: "u \<noteq> v" using B(3)[OF uv] by simp
  then show "u \<noteq> v" .
  show "zf \<noteq> 0" using zero_fix_small(1)[OF zf] by simp
  have duv: "metric (points ! u) (points ! v) = 0" using B(4)[OF uv] by simp
  have dvu: "metric (points ! v) (points ! u) = 0" using B(4)[OF vu] by simp
  show "\<forall>e\<in>set ?G. (row_of e = u \<or> col_of e = u) \<and> (row_of e = v \<or> col_of e = v)
                 \<longrightarrow> data_of e = zf"
  proof (intro ballI impI)
    fix e assume e: "e \<in> set ?G"
      and t: "(row_of e = u \<or> col_of e = u) \<and> (row_of e = v \<or> col_of e = v)"
    from e obtain e0 where e0: "e0 \<in> set G"
      and eq: "e = (row_of e0, col_of e0, if data_of e0 = 0 then zf else data_of e0)"
      unfolding assign_eq_mem by blast
    from t eq B(3)[OF e0] distinct_ends
    have "row_of e0 = u \<and> col_of e0 = v \<or> row_of e0 = v \<and> col_of e0 = u" by auto
    with B(4)[OF e0] duv dvu have "data_of e0 = 0" by auto
    with eq show "data_of e = zf" by simp
  qed
  show "\<forall>e\<in>set ?G. (row_of e = u \<or> col_of e = u) \<and> \<not> (row_of e = v \<or> col_of e = v)
                 \<longrightarrow> zf < data_of e"
  proof (intro ballI impI)
    fix e assume e: "e \<in> set ?G"
      and t: "(row_of e = u \<or> col_of e = u) \<and> \<not> (row_of e = v \<or> col_of e = v)"
    from e obtain e0 where e0: "e0 \<in> set G"
      and eq: "e = (row_of e0, col_of e0, if data_of e0 = 0 then zf else data_of e0)"
      unfolding assign_eq_mem by blast
    from t eq other e0 have pos: "0 < data_of e0" by auto
    from zero_fix_small(2)[OF zf e0 pos] pos eq show "zf < data_of e" by simp
  qed
qed

lemma forest_touches_every_vertex:
  assumes graph: "kneighbors_graph metric points k = Inr G" and zf: "zero_fix G = Inr zf"
    and i: "i < length points"
  shows "incident (assign_eq zf 0 (minimum_spanning_tree (length points) (assign_eq 0 zf G))) i \<noteq> []"
proof -
  let ?G = "assign_eq 0 zf G"
  note B = kneighbors_graph_bounds[OF graph]
  have from_G: "\<exists>e0\<in>set G. row_of e = row_of e0 \<and> col_of e = col_of e0
         \<and> data_of e = (if data_of e0 = 0 then zf else data_of e0)" if "e \<in> set ?G" for e
  proof -
    from that obtain e0 where "e0 \<in> set G"
      and "e = (row_of e0, col_of e0, if data_of e0 = 0 then zf else data_of e0)"
      unfolding assign_eq_mem by blast
    then show ?thesis by (intro bexI[of _ e0]) simp_all
  qed
  have bounds: "\<forall>e\<in>set ?G. row_of e < length points \<and> col_of e < length points"
    using from_G B(1,2) by metis
  have loops: "\<forall>e\<in>set ?G. row_of e \<noteq> col_of e"
    using from_G B(3) by metis
  have nonzero: "\<forall>e\<in>set ?G. data_of e \<noteq> 0"
  proof
    fix e assume "e \<in> set ?G"
    from from_G[OF this] obtain e0
      where "data_of e = (if data_of e0 = 0 then zf else data_of e0)" by blast
    with zero_fix_small(1)[OF zf] show "data_of e \<noteq> 0" by (cases "data_of e0 = 0") simp_all
  qed
  from graph have k: "0 < nat k" "2 \<le> length points" by (auto simp: kneighbors_graph_Inr)
  from neighbors_nonempty[OF k(1) i k(2)] obtain j
    where "j \<in> set (neighbors metric points (nat k) i)"
    by (cases "neighbors metric points (nat k) i") auto
  from kneighbors_graph_entry[OF graph i this]
  have "(i, j, if metric (points ! i) (points ! j) = 0 then zf else metric (points ! i) (points ! j)) \<in> set ?G"
    unfolding assign_eq_mem by force
  then have touched: "\<exists>e\<in>set ?G. row_of e = i \<or> col_of e = i" by force
  from minimum_spanning_tree_touches[OF bounds loops nonzero touched]
  obtain e where e: "e \<in> set (minimum_spanning_tree (length points) ?G)" "row_of e = i \<or> col_of e = i"
    by blast
  define e' where "e' = (row_of e, col_of e, if data_of e = zf then 0 else data_of e)"
  from e(1) have "e' \<in> set (assign_eq zf 0 (minimum_spanning_tree (length points) ?G))"
    unfolding assign_eq_mem e'_def by blast
  moreover from e(2) have "row_of e' = i \<or> col_of e' = i" by (simp add: e'_def)
  ultimately show ?thesis
    unfolding incident_def filter_empty_conv by blast
qed

subsection \<open>The scorer's loop\<close>

lemma persist_loop_length: "persist_loop M d js p = Inr q \<Longrightarrow> length q = length p"
  by (induction js arbitrary: p) (auto split: if_splits option.splits)

lemma persist_loop_nth:
  assumes "persist_loop M d js p = Inr q" and "distinct js" and "i < length p"
  shows "if i \<in> set js \<and> 0 < d ! i
         then np_min (positive_data (getrow M i)) = Some (q ! i)
         else q ! i = p ! i"
  using assms
proof (induction js arbitrary: p)
  case Nil
  then show ?case by simp
next
  case (Cons j js)
  show ?case
  proof (cases "0 < d ! j")
    case False
    with Cons.prems have "persist_loop M d js p = Inr q" by simp
    from Cons.IH[OF this] Cons.prems False show ?thesis by auto
  next
    case True
    with Cons.prems obtain m where m: "np_min (positive_data (getrow M j)) = Some m"
      and rec: "persist_loop M d js (p[j := m]) = Inr q"
      by (auto split: option.splits)
    from Cons.prems have "distinct js" "j \<notin> set js" by simp_all
    from Cons.IH[OF rec \<open>distinct js\<close>] Cons.prems(3)
    have IH: "if i \<in> set js \<and> 0 < d ! i
         then np_min (positive_data (getrow M i)) = Some (q ! i)
         else q ! i = p[j := m] ! i" by simp
    show ?thesis
    proof (cases "i = j")
      case True
      with IH \<open>j \<notin> set js\<close> Cons.prems(3) m \<open>0 < d ! j\<close> show ?thesis by simp
    next
      case False
      with IH show ?thesis by simp
    qed
  qed
qed

lemma getnnz_nth: "i < n \<Longrightarrow> getnnz n M ! i = length (getrow M i)"
  by (simp add: getnnz_def)

lemma persistence_length: "persistence n M = Inr p \<Longrightarrow> length p = n"
  by (auto simp: persistence_def dest: persist_loop_length)

lemma persistence_empty_row:
  assumes "persistence n M = Inr p" and "i < n" and "getrow M i = []"
  shows "p ! i = 0"
  using persist_loop_nth[OF assms(1)[unfolded persistence_def], of i] assms(2,3)
  by (simp add: getnnz_nth)

lemma persistence_stored_row:
  assumes "persistence n M = Inr p" and "i < n" and "getrow M i \<noteq> []"
  shows "np_min (positive_data (getrow M i)) = Some (p ! i)"
  using persist_loop_nth[OF assms(1)[unfolded persistence_def], of i] assms(2,3)
  by (simp add: getnnz_nth)

subsection \<open>Range and normalisation\<close>

lemma lmin_of_Inr: "lmin_of M = Inr lo \<longleftrightarrow> np_min (positive_data M) = Some lo"
  by (simp add: lmin_of_def split: option.splits)

lemma lmax_of_Inr: "lmax_of M = Inr hi \<longleftrightarrow> np_max (positive_data M) = Some hi"
  by (simp add: lmax_of_def split: option.splits)

lemma lmin_of_Inl: "lmin_of M = Inl e \<longleftrightarrow> e = ValueError 24 \<and> positive_data M = []"
  by (auto simp: lmin_of_def np_min_None split: option.splits)

lemma stored_row_between:
  assumes "lmin_of M = Inr lo" and "lmax_of M = Inr hi"
    and "persistence n M = Inr p" and "i < n" and "getrow M i \<noteq> []"
  shows "lo \<le> p ! i" and "p ! i \<le> hi"
proof -
  have "p ! i \<in> set (positive_data (getrow M i))"
    using persistence_stored_row[OF assms(3,4,5)] by (rule np_min_SomeD)
  then have mem: "p ! i \<in> set (positive_data M)" by (rule positive_data_getrow)
  show "lo \<le> p ! i" using assms(1) mem by (auto simp: lmin_of_Inr dest: np_min_SomeD(2))
  show "p ! i \<le> hi" using assms(2) mem by (auto simp: lmax_of_Inr dest: np_max_SomeD(2))
qed

lemma lmin_positive: "lmin_of M = Inr lo \<Longrightarrow> 0 < lo"
  by (auto simp: lmin_of_Inr dest: np_min_SomeD(1) positive_data_pos)

lemma normalize_nth: "i < length p \<Longrightarrow> normalize p lo hi ! i = np_div (p ! i - lo) (hi - lo)"
  by (simp add: normalize_def)

subsection \<open>The script, stage by stage\<close>

text \<open>
  Line 33 raises on every run that reaches it, so the script as written never gets to
  lines 34 and 36. The values of lines 13 to 32 are what \<open>pipeline\<close> returns.
\<close>

lemma pipelineI:
  assumes "kneighbors_graph metric points k = Inr G"
    and "zero_fix G = Inr zf"
    and "assign_eq zf 0 (minimum_spanning_tree (length points) (assign_eq 0 zf G)) = M"
    and "lmin_of M = Inr lo" and "lmax_of M = Inr hi"
    and "persistence (length points) M = Inr p"
    and "normalize p lo hi = q"
  shows "pipeline metric points k = Inr \<lparr>MST = M, lmin = lo, lmax = hi, raw = p, persist = q\<rparr>"
  using assms by (simp add: pipeline_def)

lemma pipeline_scorer_fails:
  assumes "kneighbors_graph metric points k = Inr G"
    and "zero_fix G = Inr zf"
    and "assign_eq zf 0 (minimum_spanning_tree (length points) (assign_eq 0 zf G)) = M"
    and "lmin_of M = Inr lo" and "lmax_of M = Inr hi"
    and "persistence (length points) M = Inl e"
  shows "pipeline metric points k = Inl e"
  using assms by (simp add: pipeline_def)

lemma pipeline_InrD:
  assumes "pipeline metric points k = Inr s"
  shows "lmin_of (MST s) = Inr (lmin s)" and "lmax_of (MST s) = Inr (lmax s)"
    and "persistence (length points) (MST s) = Inr (raw s)"
    and "persist s = normalize (raw s) (lmin s) (lmax s)"
  using assms
  by (auto simp: pipeline_def Let_def split: sum.splits)

lemma pipeline_forest:
  assumes "pipeline metric points k = Inr s"
  shows "\<exists>G zf. kneighbors_graph metric points k = Inr G \<and> zero_fix G = Inr zf
           \<and> MST s = assign_eq zf 0 (minimum_spanning_tree (length points) (assign_eq 0 zf G))"
  using assms by (auto simp: pipeline_def Let_def split: sum.splits)

text \<open>
  In a run every vertex has an edge of the forest: its first entry in the order of the
  weights is kept. A row of the forest without entries is therefore never the row of a
  vertex without edges.
\<close>

lemma run_touches_every_vertex:
  assumes "pipeline metric points k = Inr s" and "i < length points"
  shows "incident (MST s) i \<noteq> []"
  using pipeline_forest[OF assms(1)] forest_touches_every_vertex[OF _ _ assms(2)] by auto

lemma pipeline_length:
  assumes "pipeline metric points k = Inr s"
  shows "length (raw s) = length points" and "length (persist s) = length points"
  using pipeline_InrD(3,4)[OF assms] by (simp_all add: persistence_length normalize_def)

lemma pipeline_flat_range:
  assumes "pipeline metric points k = Inr s" and "lmin s = lmax s" and "i < length points"
  shows "persist s ! i = (if getrow (MST s) i = [] then NInf else NaN)"
proof -
  note D = pipeline_InrD[OF assms(1)]
  from assms(3) have len: "i < length (raw s)" by (simp add: pipeline_length(1)[OF assms(1)])
  show ?thesis
  proof (cases "getrow (MST s) i = []")
    case True
    from persistence_empty_row[OF D(3) assms(3) True] lmin_positive[OF D(1)] len assms(2)
    show ?thesis using True by (simp add: D(4) normalize_nth np_div_def)
  next
    case False
    from stored_row_between[OF D(1,2,3) assms(3) False] assms(2)
    have "raw s ! i = lmin s" by simp
    with len assms(2) False show ?thesis by (simp add: D(4) normalize_nth np_div_def)
  qed
qed

lemma script_raises: "\<exists>e. script metric points k = Inl e"
  by (simp add: script_def diagnostic_def split: sum.splits)

subsection \<open>The ordering (lines 34 and 36)\<close>

lemma sort_rank_inj: "inj sort_rank"
proof (rule injI)
  fix x y assume "sort_rank x = sort_rank y"
  then show "x = y" by (cases x; cases y) simp_all
qed

lemma is_argsort_scores:
  assumes "is_argsort p js"
  shows "map (\<lambda>i. p ! i) js = sorted_scores p"
proof -
  from assms have set_js: "set js = {0..<length p}" and dist: "distinct js"
    and srt: "sorted (map (\<lambda>i. sort_rank (p ! i)) js)"
    by (simp_all add: is_argsort_def)
  have "mset js = mset [0..<length p]"
    by (rule iffD1[OF set_eq_iff_mset_eq_distinct[OF dist distinct_upt]]) (simp add: set_js)
  then have "mset (map (\<lambda>i. p ! i) js) = mset (map (\<lambda>i. p ! i) [0..<length p])"
    by (simp only: mset_map)
  then have perm: "mset (map (\<lambda>i. p ! i) js) = mset p" by (simp add: map_nth)
  let ?a = "map sort_rank (map (\<lambda>i. p ! i) js)" and ?b = "map sort_rank (sorted_scores p)"
  have "sorted ?a" using srt by (simp add: comp_def)
  moreover have "mset ?a = mset (map sort_rank p)" using perm by (simp only: mset_map)
  ultimately have a: "sort (map sort_rank p) = ?a" by (intro properties_for_sort)
  have "sorted ?b" unfolding sorted_scores_def by (rule sorted_sort_key)
  moreover have "mset ?b = mset (map sort_rank p)" by (simp add: sorted_scores_def)
  ultimately have b: "sort (map sort_rank p) = ?b" by (intro properties_for_sort)
  from a b have "?a = ?b" by simp
  then show ?thesis by (simp only: inj_map_eq_map[OF sort_rank_inj])
qed

subsection \<open>Four colinear points\<close>

text \<open>
  The spec's scenario: the points 0, 1, 2 and 10 on a line, three neighbours each, the
  Euclidean metric. Each stage is evaluated on its own.
\<close>

lemma colinear_graph:
  "kneighbors_graph euclidean [[0], [1], [2], [10]] 3 =
     Inr [(0, 1, 1), (0, 2, 2), (0, 3, 10), (1, 0, 1), (1, 2, 1), (1, 3, 9),
          (2, 1, 1), (2, 0, 2), (2, 3, 8), (3, 2, 8), (3, 1, 9), (3, 0, 10)]"
  by (simp add: kneighbors_graph_def neighbors_def euclidean_1d)

lemma colinear_zero_fix:
  "zero_fix [(0, 1, 1), (0, 2, 2), (0, 3, 10), (1, 0, 1), (1, 2, 1), (1, 3, 9),
             (2, 1, 1), (2, 0, 2), (2, 3, 8), (3, 2, 8), (3, 1, 9), (3, 0, 10)] = Inr (1 / 10 ^ 8)"
  by code_simp

lemma colinear_forest:
  "assign_eq (1 / 10 ^ 8) 0 (minimum_spanning_tree (length [[0], [1], [2], [10::real]])
     (assign_eq 0 (1 / 10 ^ 8)
       [(0, 1, 1), (0, 2, 2), (0, 3, 10), (1, 0, 1), (1, 2, 1), (1, 3, 9),
        (2, 1, 1), (2, 0, 2), (2, 3, 8), (3, 2, 8), (3, 1, 9), (3, 0, 10)]))
   = [(0, 1, 1), (1, 2, 1), (2, 3, 8)]"
  by code_simp

lemma colinear_range:
  "lmin_of [(0, 1, 1), (1, 2, 1), (2, 3, 8)] = Inr 1"
  "lmax_of [(0, 1, 1), (1, 2, 1), (2, 3, 8)] = Inr 8"
  by code_simp+

lemma colinear_persistence:
  "persistence (length [[0], [1], [2], [10::real]]) [(0, 1, 1), (1, 2, 1), (2, 3, 8)] = Inr [1, 1, 8, 0]"
  by code_simp

lemma colinear_normalize:
  "normalize [1, 1, 8, 0] 1 8 = [Fin 0, Fin 0, Fin 1, Fin (- (1 / 7))]"
  by code_simp

lemma colinear_pipeline:
  "pipeline euclidean [[0], [1], [2], [10]] 3 =
     Inr \<lparr>MST = [(0, 1, 1), (1, 2, 1), (2, 3, 8)], lmin = 1, lmax = 8,
          raw = [1, 1, 8, 0], persist = [Fin 0, Fin 0, Fin 1, Fin (- (1 / 7))]\<rparr>"
  by (rule pipelineI[OF colinear_graph colinear_zero_fix colinear_forest colinear_range
        colinear_persistence colinear_normalize])

subsection \<open>Two points\<close>

lemma two_points_pipeline:
  "pipeline euclidean [[0], [1]] 1 =
     Inr \<lparr>MST = [(0, 1, 1)], lmin = 1, lmax = 1, raw = [1, 0], persist = [NaN, NInf]\<rparr>"
proof (rule pipelineI)
  show "kneighbors_graph euclidean [[0], [1]] 1 = Inr [(0, 1, 1), (1, 0, 1)]"
    by (simp add: kneighbors_graph_def neighbors_def euclidean_1d)
  show "zero_fix [(0, 1, 1), (1, 0, 1)] = Inr (1 / 10 ^ 8)" by code_simp
  show "assign_eq (1 / 10 ^ 8) 0 (minimum_spanning_tree (length [[0], [1::real]])
          (assign_eq 0 (1 / 10 ^ 8) [(0, 1, 1), (1, 0, 1)])) = [(0, 1, 1)]" by code_simp
  show "lmin_of [(0, 1, 1)] = Inr 1" by code_simp
  show "lmax_of [(0, 1, 1)] = Inr 1" by code_simp
  show "persistence (length [[0], [1::real]]) [(0, 1, 1)] = Inr [1, 0]" by code_simp
  show "normalize [1, 0] 1 1 = [NaN, NInf]" by code_simp
qed

subsection \<open>A point and a duplicate pair\<close>

lemma duplicate_graph:
  "kneighbors_graph euclidean [[5], [0], [0]] 2 =
     Inr [(0, 1, 5), (0, 2, 5), (1, 2, 0), (1, 0, 5), (2, 1, 0), (2, 0, 5)]"
  by (simp add: kneighbors_graph_def neighbors_def euclidean_1d)

lemma duplicate_zero_fix:
  "zero_fix [(0, 1, 5), (0, 2, 5), (1, 2, 0), (1, 0, 5), (2, 1, 0), (2, 0, 5)] = Inr (5 / 10 ^ 8)"
  by code_simp

lemma duplicate_forest:
  "assign_eq (5 / 10 ^ 8) 0 (minimum_spanning_tree (length [[5], [0], [0::real]])
     (assign_eq 0 (5 / 10 ^ 8) [(0, 1, 5), (0, 2, 5), (1, 2, 0), (1, 0, 5), (2, 1, 0), (2, 0, 5)]))
   = [(0, 1, 5), (1, 2, 0)]"
  by code_simp

lemma duplicate_range:
  "lmin_of [(0, 1, 5), (1, 2, 0)] = Inr 5"
  "lmax_of [(0, 1, 5), (1, 2, 0)] = Inr 5"
  by code_simp+

lemma duplicate_persistence:
  "persistence (length [[5], [0], [0::real]]) [(0, 1, 5), (1, 2, 0)] = Inl (ValueError 30)"
  by code_simp

subsection \<open>Three coincident points and a fourth\<close>

lemma triple_graph:
  "kneighbors_graph euclidean [[0], [0], [0], [5]] 3 =
     Inr [(0, 1, 0), (0, 2, 0), (0, 3, 5), (1, 0, 0), (1, 2, 0), (1, 3, 5),
          (2, 0, 0), (2, 1, 0), (2, 3, 5), (3, 0, 5), (3, 1, 5), (3, 2, 5)]"
  by (simp add: kneighbors_graph_def neighbors_def euclidean_1d)

section \<open>The claims\<close>

text \<open>
  C1. For the four colinear points 0, 1, 2, 10 with \<open>k = 3\<close> and the Euclidean metric the
  spec expects the forest \<open>(0,1,1), (1,2,1), (2,3,8)\<close>, \<open>lmin = 1\<close>, \<open>lmax = 8\<close>, the raw
  persistence \<open>(1, 1, 1, 8)\<close> and the scores \<open>(0, 0, 0, 1)\<close>. The script computes that
  forest and that range, but the raw persistence \<open>(1, 1, 8, 0)\<close> and the scores
  \<open>(0, 0, 1, -1/7)\<close>: vertex 2 reads only its own row, which stores the edge to vertex 3,
  and the row of vertex 3 stores nothing.
\<close>

theorem colinear_scenario:
  "\<exists>s. pipeline euclidean [[0], [1], [2], [10]] 3 = Inr s
     \<and> MST s = [(0, 1, 1), (1, 2, 1), (2, 3, 8)] \<and> lmin s = 1 \<and> lmax s = 8
     \<and> raw s = [1, 1, 8, 0] \<and> raw s \<noteq> [1, 1, 1, 8]
     \<and> persist s = [Fin 0, Fin 0, Fin 1, Fin (- (1 / 7))]
     \<and> persist s \<noteq> [Fin 0, Fin 0, Fin 0, Fin 1]"
  by (simp add: colinear_pipeline)

text \<open>
  C2. The spec: \<open>persist[i]\<close> is the minimum weight over the strictly positive edges of the
  forest incident to \<open>i\<close>, whichever way an edge is stored, and a vertex of degree 0 is
  marked disconnected rather than left at 0.

  Line 30 takes the minimum over row \<open>i\<close> only, and the forest stores an edge once. For the
  four colinear points the rows store 1, 1, 1 and 0 entries. The edges at vertex 2 weigh 1
  and 8, and the script gives it 8; the edge at vertex 3 weighs 8, its row is empty, and the
  script leaves it at 0. No vertex of a run has degree 0 (\<open>run_touches_every_vertex\<close>), so
  an empty row is always the row of a connected vertex. This is the defect of C1.
\<close>

theorem scorer_reads_own_row_only:
  "\<exists>s. pipeline euclidean [[0], [1], [2], [10]] 3 = Inr s
     \<and> getnnz 4 (MST s) = [1, 1, 1, 0]
     \<and> np_min (positive_data (incident (MST s) 2)) = Some 1 \<and> raw s ! 2 = 8
     \<and> np_min (positive_data (incident (MST s) 3)) = Some 8 \<and> raw s ! 3 = 0"
proof -
  have "getnnz 4 [(0, 1, 1), (1, 2, 1), (2, 3, 8::real)] = [1, 1, 1, 0]" by code_simp
  moreover have "np_min (positive_data (incident [(0, 1, 1), (1, 2, 1), (2, 3, 8)] 2)) = Some 1"
    by code_simp
  moreover have "np_min (positive_data (incident [(0, 1, 1), (1, 2, 1), (2, 3, 8)] 3)) = Some 8"
    by code_simp
  ultimately show ?thesis by (simp add: colinear_pipeline)
qed

text \<open>
  C3. The spec: every emitted score lies in \<open>[0, 1]\<close> or is the disconnected sentinel, the
  count of scores outside \<open>[0, 1]\<close> is always zero, and a disconnected vertex keeps a
  sentinel.

  For the four colinear points vertex 3 is connected, by the edge \<open>(2,3,8)\<close> stored in row 2,
  and its score is the number \<open>-1/7\<close>: neither in \<open>[0, 1]\<close> nor a sentinel, and
  \<^verbatim>\<open>np.where(persist < 0)\<close> finds one index. The score comes from the 0 that line 30
  leaves for a vertex with an empty row; this is the defect of C1.
\<close>

theorem connected_vertex_scores_below_zero:
  "\<exists>s. pipeline euclidean [[0], [1], [2], [10]] 3 = Inr s
     \<and> incident (MST s) 3 = [(2, 3, 8)]
     \<and> persist s ! 3 = Fin (- (1 / 7))
     \<and> np_where_less_0 (persist s) = [3]"
proof -
  have "np_where_less_0 [Fin 0, Fin 0, Fin 1, Fin (- (1 / 7))] = [3]" by code_simp
  moreover have "incident [(0, 1, 1), (1, 2, 1), (2, 3, 8::real)] 3 = [(2, 3, 8)]" by code_simp
  ultimately show ?thesis by (simp add: colinear_pipeline)
qed

text \<open>
  C4. The spec: when two coincident points each have the other among their neighbours, the
  edge between them is stored after the zeros are replaced, survives the extraction of the
  tree, and has weight exactly 0 in the final forest; the replacement is exactly undone.

  Against the claim: of three coincident points and a fourth at distance 5, three neighbours
  each, the tree keeps the edges from point 0 to the points 1 and 2; the points 1 and 2
  coincide and are neighbours of each other, and the edge between them is in the forest in
  neither direction (it would close a cycle).
\<close>

theorem coincident_pair_counterexample:
  "kneighbors_graph euclidean [[0], [0], [0], [5]] 3 =
     Inr [(0, 1, 0), (0, 2, 0), (0, 3, 5), (1, 0, 0), (1, 2, 0), (1, 3, 5),
          (2, 0, 0), (2, 1, 0), (2, 3, 5), (3, 0, 5), (3, 1, 5), (3, 2, 5)]
   \<and> zero_fix [(0, 1, 0), (0, 2, 0), (0, 3, 5), (1, 0, 0), (1, 2, 0), (1, 3, 5),
          (2, 0, 0), (2, 1, 0), (2, 3, 5), (3, 0, 5), (3, 1, 5), (3, 2, 5)] = Inr (5 / 10 ^ 8)
   \<and> assign_eq (5 / 10 ^ 8) 0 (minimum_spanning_tree 4 (assign_eq 0 (5 / 10 ^ 8)
        [(0, 1, 0), (0, 2, 0), (0, 3, 5), (1, 0, 0), (1, 2, 0), (1, 3, 5),
         (2, 0, 0), (2, 1, 0), (2, 3, 5), (3, 0, 5), (3, 1, 5), (3, 2, 5)]))
      = [(0, 1, 0), (0, 2, 0), (0, 3, 5)]
   \<and> (1, 2, 0) \<notin> set [(0::nat, 1::nat, 0::real), (0, 2, 0), (0, 3, 5)]
   \<and> (2, 1, 0) \<notin> set [(0::nat, 1::nat, 0::real), (0, 2, 0), (0, 3, 5)]"
proof (intro conjI)
  show "kneighbors_graph euclidean [[0], [0], [0], [5]] 3 =
     Inr [(0, 1, 0), (0, 2, 0), (0, 3, 5), (1, 0, 0), (1, 2, 0), (1, 3, 5),
          (2, 0, 0), (2, 1, 0), (2, 3, 5), (3, 0, 5), (3, 1, 5), (3, 2, 5)]"
    by (rule triple_graph)
  show "zero_fix [(0, 1, 0), (0, 2, 0), (0, 3, 5), (1, 0, 0), (1, 2, 0), (1, 3, 5),
          (2, 0, 0), (2, 1, 0), (2, 3, 5), (3, 0, 5), (3, 1, 5), (3, 2, 5)] = Inr (5 / 10 ^ 8)"
    by code_simp
  show "assign_eq (5 / 10 ^ 8) 0 (minimum_spanning_tree 4 (assign_eq 0 (5 / 10 ^ 8)
        [(0, 1, 0), (0, 2, 0), (0, 3, 5), (1, 0, 0), (1, 2, 0), (1, 3, 5),
         (2, 0, 0), (2, 1, 0), (2, 3, 5), (3, 0, 5), (3, 1, 5), (3, 2, 5)]))
      = [(0, 1, 0), (0, 2, 0), (0, 3, 5)]"
    by code_simp
  show "(1, 2, 0) \<notin> set [(0::nat, 1::nat, 0::real), (0, 2, 0), (0, 3, 5)]" by simp
  show "(2, 1, 0) \<notin> set [(0::nat, 1::nat, 0::real), (0, 2, 0), (0, 3, 5)]" by simp
qed

text \<open>
  C4, amended. When two coincident points each have the other among their neighbours and
  every other stored edge at one of the two has a strictly positive weight (no third point
  of its neighbourhood coincides with it), the edge between them is stored with weight
  \<open>zero_fix\<close> in both directions after line 17, one of the two entries survives the
  extraction, and its weight in the final forest is exactly 0. In every case each entry of
  the final forest is an entry of the neighbour graph with its original weight, and none
  has the weight \<open>zero_fix\<close>: line 22 undoes line 17 exactly.
\<close>

theorem coincident_pair_round_trip:
  assumes "kneighbors_graph metric points k = Inr G" and "zero_fix G = Inr zf"
    and "(u, v, 0) \<in> set G" and "(v, u, 0) \<in> set G"
    and "\<forall>e\<in>set G. (row_of e = u \<or> col_of e = u) \<and> row_of e \<noteq> v \<and> col_of e \<noteq> v
           \<longrightarrow> 0 < data_of e"
  shows "zf \<noteq> 0
       \<and> (u, v, zf) \<in> set (assign_eq 0 zf G) \<and> (v, u, zf) \<in> set (assign_eq 0 zf G)
       \<and> ((u, v, 0) \<in> set (assign_eq zf 0 (minimum_spanning_tree (length points) (assign_eq 0 zf G)))
          \<or> (v, u, 0) \<in> set (assign_eq zf 0 (minimum_spanning_tree (length points) (assign_eq 0 zf G))))
       \<and> set (assign_eq zf 0 (minimum_spanning_tree (length points) (assign_eq 0 zf G))) \<subseteq> set G
       \<and> zf \<notin> data_of ` set (assign_eq zf 0 (minimum_spanning_tree (length points) (assign_eq 0 zf G)))"
proof (intro conjI)
  let ?M = "assign_eq zf 0 (minimum_spanning_tree (length points) (assign_eq 0 zf G))"
  show "zf \<noteq> 0" using zero_fix_small(1)[OF assms(2)] by simp
  show "(u, v, zf) \<in> set (assign_eq 0 zf G)" unfolding assign_eq_mem using assms(3) by force
  show "(v, u, zf) \<in> set (assign_eq 0 zf G)" unfolding assign_eq_mem using assms(4) by force
  from sanitized_keeps_pair[OF assms]
  show "(u, v, 0) \<in> set ?M \<or> (v, u, 0) \<in> set ?M"
    unfolding assign_eq_mem[of _ zf 0] by force
  show sub: "set ?M \<subseteq> set G" by (rule forest_subset_graph[OF assms(2)])
  show "zf \<notin> data_of ` set ?M"
  proof
    assume "zf \<in> data_of ` set ?M"
    then obtain e where "e \<in> set ?M" "data_of e = zf" by auto
    with sub zero_fix_fresh[OF assms(2), of e] show False by auto
  qed
qed

theorem coincident_pair_round_trip_witness:
  "kneighbors_graph euclidean [[5], [0], [0]] 2 =
     Inr [(0, 1, 5), (0, 2, 5), (1, 2, 0), (1, 0, 5), (2, 1, 0), (2, 0, 5)]
   \<and> zero_fix [(0, 1, 5), (0, 2, 5), (1, 2, 0), (1, 0, 5), (2, 1, 0), (2, 0, 5)] = Inr (5 / 10 ^ 8)
   \<and> (1, 2, 5 / 10 ^ 8) \<in> set (assign_eq 0 (5 / 10 ^ 8)
         [(0, 1, 5), (0, 2, 5), (1, 2, 0), (1, 0, 5), (2, 1, 0), (2, 0, 5)])
   \<and> ((1, 2, 0) \<in> set (assign_eq (5 / 10 ^ 8) 0 (minimum_spanning_tree (length [[5], [0], [0::real]])
           (assign_eq 0 (5 / 10 ^ 8) [(0, 1, 5), (0, 2, 5), (1, 2, 0), (1, 0, 5), (2, 1, 0), (2, 0, 5)])))
      \<or> (2, 1, 0) \<in> set (assign_eq (5 / 10 ^ 8) 0 (minimum_spanning_tree (length [[5], [0], [0::real]])
           (assign_eq 0 (5 / 10 ^ 8) [(0, 1, 5), (0, 2, 5), (1, 2, 0), (1, 0, 5), (2, 1, 0), (2, 0, 5)]))))
   \<and> set (assign_eq (5 / 10 ^ 8) 0 (minimum_spanning_tree (length [[5], [0], [0::real]])
           (assign_eq 0 (5 / 10 ^ 8) [(0, 1, 5), (0, 2, 5), (1, 2, 0), (1, 0, 5), (2, 1, 0), (2, 0, 5)])))
       \<subseteq> set [(0, 1, 5), (0, 2, 5), (1, 2, 0), (1, 0, 5), (2, 1, 0), (2, 0, 5)]"
proof -
  let ?G = "[(0, 1, 5), (0, 2, 5), (1, 2, 0), (1, 0, 5), (2, 1, 0), (2, 0, 5)] :: csr"
  have uv: "(1, 2, 0) \<in> set ?G" and vu: "(2, 1, 0) \<in> set ?G" by simp_all
  have other: "\<forall>e\<in>set ?G. (row_of e = 1 \<or> col_of e = 1) \<and> row_of e \<noteq> 2 \<and> col_of e \<noteq> 2
           \<longrightarrow> 0 < data_of e" by simp
  from coincident_pair_round_trip[OF duplicate_graph duplicate_zero_fix uv vu other]
    duplicate_graph duplicate_zero_fix
  show ?thesis by blast
qed

text \<open>
  C5. The sanitiser fails exactly when the neighbour graph stores no strictly positive
  weight; the failure is the ValueError of the empty minimum at line 16, which the spec
  calls DegenerateGraph. In particular, when some point lies at a positive distance from
  every other point (as with one duplicate pair among otherwise distinct points), the graph
  is built and the sanitiser returns.
\<close>

theorem sanitizer_failure:
  "(\<forall>e. zero_fix G = Inl e \<longrightarrow> e = ValueError 16)
   \<and> (zero_fix G = Inl (ValueError 16) \<longleftrightarrow> (\<forall>e\<in>set G. data_of e \<le> 0))
   \<and> ((\<exists>zf. zero_fix G = Inr zf) \<longleftrightarrow> (\<exists>e\<in>set G. 0 < data_of e))
   \<and> (1 \<le> k \<and> k < int (length points) \<and> i < length points
        \<and> (\<forall>j < length points. j \<noteq> i \<longrightarrow> 0 < metric (points ! i) (points ! j))
      \<longrightarrow> (\<exists>G' zf. kneighbors_graph metric points k = Inr G' \<and> zero_fix G' = Inr zf))"
proof (intro conjI allI impI)
  fix e assume "zero_fix G = Inl e"
  then show "e = ValueError 16" by (simp add: zero_fix_Inl)
next
  show "zero_fix G = Inl (ValueError 16) \<longleftrightarrow> (\<forall>e\<in>set G. data_of e \<le> 0)"
    by (simp add: zero_fix_Inl positive_data_Nil)
  show "(\<exists>zf. zero_fix G = Inr zf) \<longleftrightarrow> (\<exists>e\<in>set G. 0 < data_of e)"
    by (rule zero_fix_returns)
next
  assume "1 \<le> k \<and> k < int (length points) \<and> i < length points
        \<and> (\<forall>j < length points. j \<noteq> i \<longrightarrow> 0 < metric (points ! i) (points ! j))"
  then have "1 \<le> k" "k < int (length points)" "i < length points"
    "\<forall>j < length points. j \<noteq> i \<longrightarrow> 0 < metric (points ! i) (points ! j)"
    by simp_all
  then show "\<exists>G' zf. kneighbors_graph metric points k = Inr G' \<and> zero_fix G' = Inr zf"
    by (rule distinct_point_gives_scale)
qed

theorem sanitizer_failure_witness:
  "(\<exists>G' zf. kneighbors_graph euclidean [[5], [0], [0]] 2 = Inr G' \<and> zero_fix G' = Inr zf)
   \<and> zero_fix [(0, 1, 0), (1, 0, 0)] = Inl (ValueError 16)
   \<and> (\<exists>zf. zero_fix [(0, 1, 5), (1, 0, 5)] = Inr zf)"
proof -
  have far: "1 \<le> (2::int) \<and> 2 < int (length [[5], [0], [0::real]]) \<and> (0::nat) < length [[5], [0], [0::real]]
        \<and> (\<forall>j < length [[5], [0], [0::real]]. j \<noteq> 0 \<longrightarrow> 0 < euclidean ([[5], [0], [0]] ! 0) ([[5], [0], [0]] ! j))"
    by (simp add: euclidean_1d less_Suc_eq)
  have z: "\<forall>e\<in>set [(0::nat, 1::nat, 0::real), (1, 0, 0)]. data_of e \<le> 0" by simp
  have p: "\<exists>e\<in>set [(0::nat, 1::nat, 5::real), (1, 0, 5)]. 0 < data_of e" by simp
  from sanitizer_failure[of "[(0, 1, 0), (1, 0, 0)]" 2 "[[5], [0], [0]]" 0 euclidean] far z
  have a: "(\<exists>G' zf. kneighbors_graph euclidean [[5], [0], [0]] 2 = Inr G' \<and> zero_fix G' = Inr zf)"
    and b: "zero_fix [(0, 1, 0), (1, 0, 0)] = Inl (ValueError 16)"
    by blast+
  from sanitizer_failure[of "[(0, 1, 5), (1, 0, 5)]" 2 "[[5], [0], [0]]" 0 euclidean] p
  have c: "\<exists>zf. zero_fix [(0, 1, 5), (1, 0, 5)] = Inr zf" by blast
  from a b c show ?thesis by blast
qed

text \<open>
  C6. The spec: the normaliser fails with DegenerateRange whenever \<open>lmin = lmax\<close> or no
  positive entry exists, and it never divides by \<open>lmax - lmin = 0\<close>.

  Against the claim: for the two points 0 and 1 the forest is the single edge of weight 1,
  so \<open>lmin = lmax = 1\<close>; nothing fails, line 32 divides by zero and the scores are NaN and
  \<open>-inf\<close>.
\<close>

theorem range_counterexample:
  "\<exists>s. pipeline euclidean [[0], [1]] 1 = Inr s \<and> lmin s = lmax s \<and> lmax s - lmin s = 0
     \<and> persist s = [NaN, NInf]"
  by (simp add: two_points_pipeline)

text \<open>
  C6, amended. The normaliser fails, with the ValueError of the empty minimum at line 24,
  exactly when the forest stores no strictly positive weight. When \<open>lmin = lmax\<close> it does
  not fail: line 32 divides by zero, and every score is NaN or \<open>-inf\<close>.
\<close>

theorem range_failure:
  "(lmin_of M = Inl (ValueError 24) \<longleftrightarrow> positive_data M = [])
   \<and> ((\<exists>lo. lmin_of M = Inr lo) \<longleftrightarrow> positive_data M \<noteq> [])
   \<and> (pipeline metric points k = Inr s \<and> lmin s = lmax s \<longrightarrow>
        (\<forall>i < length points. persist s ! i = NaN \<or> persist s ! i = NInf))"
proof (intro conjI impI allI)
  show "lmin_of M = Inl (ValueError 24) \<longleftrightarrow> positive_data M = []"
    by (simp add: lmin_of_Inl)
  show "(\<exists>lo. lmin_of M = Inr lo) \<longleftrightarrow> positive_data M \<noteq> []"
    by (auto simp: lmin_of_def np_min_None split: option.splits)
next
  fix i assume a: "pipeline metric points k = Inr s \<and> lmin s = lmax s" and i: "i < length points"
  from a have p: "pipeline metric points k = Inr s" and e: "lmin s = lmax s" by simp_all
  from pipeline_flat_range[OF p e i] show "persist s ! i = NaN \<or> persist s ! i = NInf"
    by simp
qed

theorem range_failure_witness:
  "\<exists>s. pipeline euclidean [[0], [1]] 1 = Inr s \<and> lmin s = lmax s
     \<and> (persist s ! 0 = NaN \<or> persist s ! 0 = NInf)
     \<and> (persist s ! 1 = NaN \<or> persist s ! 1 = NInf)"
proof -
  let ?s = "\<lparr>MST = [(0, 1, 1)], lmin = 1, lmax = 1, raw = [1, 0], persist = [NaN, NInf]\<rparr>"
  have eq: "lmin ?s = lmax ?s" by simp
  from range_failure[of "[]" euclidean "[[0], [1]]" 1 ?s] two_points_pipeline eq
  have all: "\<forall>i < length [[0], [1::real]]. persist ?s ! i = NaN \<or> persist ?s ! i = NInf"
    by blast
  from all have "persist ?s ! 0 = NaN \<or> persist ?s ! 0 = NInf" by simp
  moreover from all have "persist ?s ! 1 = NaN \<or> persist ?s ! 1 = NInf" by simp
  ultimately show ?thesis using two_points_pipeline eq by blast
qed

text \<open>
  C7. The spec: the reporter emits a stable ascending ordering of the vertices by score, in
  which a disconnected vertex comes after all finite-scored vertices or is left out.

  The script emits no ordering: line 33 raises AttributeError in every run that reaches it
  (\<open>script_raises\<close>), so lines 34 and 36 are never executed. For the four colinear points
  the scores are computed and the script stops at line 33. Had line 34 run, both
  \<open>[3, 0, 1, 2]\<close> and \<open>[3, 1, 0, 2]\<close> would be possible values of \<open>idx\<close>, either with the
  connected vertex 3 first.
\<close>

theorem script_stops_at_line_33:
  "(\<exists>s. pipeline euclidean [[0], [1], [2], [10]] 3 = Inr s
       \<and> persist s = [Fin 0, Fin 0, Fin 1, Fin (- (1 / 7))])
   \<and> script euclidean [[0], [1], [2], [10]] 3 = Inl (AttributeError 33)
   \<and> is_argsort [Fin 0, Fin 0, Fin 1, Fin (- (1 / 7))] [3, 0, 1, 2]
   \<and> is_argsort [Fin 0, Fin 0, Fin 1, Fin (- (1 / 7))] [3, 1, 0, 2]"
proof (intro conjI)
  show "\<exists>s. pipeline euclidean [[0], [1], [2], [10]] 3 = Inr s
       \<and> persist s = [Fin 0, Fin 0, Fin 1, Fin (- (1 / 7))]"
    by (simp add: colinear_pipeline)
  show "script euclidean [[0], [1], [2], [10]] 3 = Inl (AttributeError 33)"
    by (simp add: script_def colinear_pipeline diagnostic_def)
  show "is_argsort [Fin 0, Fin 0, Fin 1, Fin (- (1 / 7))] [3, 0, 1, 2]"
    by (auto simp: is_argsort_def less_eq_prod_def)
  show "is_argsort [Fin 0, Fin 0, Fin 1, Fin (- (1 / 7))] [3, 1, 0, 2]"
    by (auto simp: is_argsort_def less_eq_prod_def)
qed

text \<open>
  C8. The neighbour graph builder fails whenever \<open>k < 1\<close> or \<open>k \<ge> N\<close>, and then the script
  has produced nothing: the failure is that of the whole run. The spec calls the failure
  InvalidParameter; in the script it is the ValueError raised inside line 13.
\<close>

theorem builder_rejects_k:
  "(k < 1 \<or> int (length points) \<le> k \<longrightarrow>
      kneighbors_graph metric points k = Inl (ValueError 13)
    \<and> pipeline metric points k = Inl (ValueError 13))
   \<and> (1 \<le> k \<and> k < int (length points) \<longrightarrow> (\<exists>G. kneighbors_graph metric points k = Inr G))"
  by (simp add: kneighbors_graph_def pipeline_def)

theorem builder_rejects_k_witness:
  "kneighbors_graph euclidean [[0], [1], [2], [10]] 4 = Inl (ValueError 13)
   \<and> pipeline euclidean [[0], [1], [2], [10]] 4 = Inl (ValueError 13)
   \<and> kneighbors_graph euclidean [[0], [1], [2], [10]] 0 = Inl (ValueError 13)
   \<and> pipeline euclidean [[0], [1], [2], [10]] 0 = Inl (ValueError 13)
   \<and> (\<exists>G. kneighbors_graph euclidean [[0], [1], [2], [10]] 3 = Inr G)"
  using builder_rejects_k[of 4 "[[0], [1], [2], [10]]" euclidean]
    builder_rejects_k[of 0 "[[0], [1], [2], [10]]" euclidean]
    builder_rejects_k[of 3 "[[0], [1], [2], [10]]" euclidean]
  by simp

text \<open>
  C9. The spec asks that two runs on the same input and parameters give bit-identical
  forests, persistence vectors and rankings. Every definition above is a function of its
  arguments, so in the model equal inputs give equal results by construction; that says
  nothing about the libraries' rounding, threads or sort, which is what the claim is about.
  It is not stated as a theorem.
\<close>

text \<open>
  C10. The claim: a row of the forest that stores an entry always stores a strictly positive
  one, also after line 22 has written zeros back, so the minimum at line 30 is never taken
  over an empty selection.

  The script does reach that minimum. For the points 5, 0, 0 with two neighbours each, the
  edge between the two coincident points is kept in row 1 and is the only entry of that row;
  line 22 sets it to 0; \<^verbatim>\<open>getnnz\<close> counts it, so \<^verbatim>\<open>degree[1] = 1\<close>, the positive entries of row 1
  are none, and line 30 raises ValueError.
\<close>

theorem duplicate_row_without_positive_entry:
  "kneighbors_graph euclidean [[5], [0], [0]] 2 =
     Inr [(0, 1, 5), (0, 2, 5), (1, 2, 0), (1, 0, 5), (2, 1, 0), (2, 0, 5)]
   \<and> assign_eq (5 / 10 ^ 8) 0 (minimum_spanning_tree 3
        (assign_eq 0 (5 / 10 ^ 8) [(0, 1, 5), (0, 2, 5), (1, 2, 0), (1, 0, 5), (2, 1, 0), (2, 0, 5)]))
      = [(0, 1, 5), (1, 2, 0)]
   \<and> getnnz 3 [(0, 1, 5), (1, 2, 0)] = [1, 1, 0]
   \<and> positive_data (getrow [(0, 1, 5), (1, 2, 0)] 1) = []
   \<and> persistence 3 [(0, 1, 5), (1, 2, 0)] = Inl (ValueError 30)
   \<and> pipeline euclidean [[5], [0], [0]] 2 = Inl (ValueError 30)"
proof (intro conjI)
  show "kneighbors_graph euclidean [[5], [0], [0]] 2 =
     Inr [(0, 1, 5), (0, 2, 5), (1, 2, 0), (1, 0, 5), (2, 1, 0), (2, 0, 5)]"
    by (rule duplicate_graph)
  show "assign_eq (5 / 10 ^ 8) 0 (minimum_spanning_tree 3
        (assign_eq 0 (5 / 10 ^ 8) [(0, 1, 5), (0, 2, 5), (1, 2, 0), (1, 0, 5), (2, 1, 0), (2, 0, 5)]))
      = [(0, 1, 5), (1, 2, 0)]"
    by code_simp
  show "getnnz 3 [(0, 1, 5), (1, 2, 0)] = [1, 1, 0]" by code_simp
  show "positive_data (getrow [(0, 1, 5), (1, 2, 0)] 1) = []" by code_simp
  show "persistence 3 [(0, 1, 5), (1, 2, 0)] = Inl (ValueError 30)" by code_simp
  show "pipeline euclidean [[5], [0], [0]] 2 = Inl (ValueError 30)"
    by (rule pipeline_scorer_fails[OF duplicate_graph duplicate_zero_fix duplicate_forest
          duplicate_range duplicate_persistence])
qed

end
